theory Spec2Isabelle
  imports Main "HOL-Library.Sublist"
begin

section \<open>Syntax tree\<close>

text \<open>
  The unused-imports manager works on the tree built by the TypeScript parser. The parser is
  a library, so the tree is an input of the model. Only the node kinds the manager tests for
  are told apart:
  \<^item> \<open>Identifier text\<close>;
  \<^item> \<open>ImportDeclaration importClause others pos end\<close>, where \<open>others\<close> are the children
    that \<open>forEachChild\<close> visits besides the import clause (modifiers, module specifier,
    attributes), \<open>pos\<close> is what \<open>getFullStart()\<close> returns and \<open>end\<close> what \<open>getEnd()\<close>
    returns;
  \<^item> \<open>JsxOpeningElement tagName others\<close> and \<open>JsxSelfClosingElement tagName others\<close>,
    where \<open>forEachChild\<close> visits the tag name first and then the other children;
  \<^item> \<open>OtherNode children\<close> for every other kind, the source file itself included.

  An import specifier carries its optional \<open>propertyName\<close> (the original name of an aliased
  specifier) and its \<open>name\<close> (the local name).
\<close>

datatype ImportSpecifier = ImportSpecifier "string option" string

datatype NamedImportBindings =
    NamedImports "ImportSpecifier list"
  | NamespaceImport string

datatype ImportClause = ImportClause "string option" "NamedImportBindings option"

datatype node =
    Identifier string
  | ImportDeclaration "ImportClause option" "node list" nat nat
  | JsxOpeningElement node "node list"
  | JsxSelfClosingElement node "node list"
  | OtherNode "node list"

section \<open>Import records and findings\<close>

record span =
  start :: nat
  endOffset :: nat

record importInfo = span +
  node :: node
  importedNames :: "string list"

record UnusedImport = span +
  importName :: string
  line :: nat

section \<open>collectImports\<close>

fun specifierNames :: "ImportSpecifier \<Rightarrow> string list" where
  "specifierNames (ImportSpecifier propertyName name) =
     name # (case propertyName of Some original \<Rightarrow> [original] | None \<Rightarrow> [])"

fun clauseNames :: "ImportClause option \<Rightarrow> string list" where
  "clauseNames None = []"
| "clauseNames (Some (ImportClause name namedBindings)) =
     (case name of Some n \<Rightarrow> [n] | None \<Rightarrow> []) @
     (case namedBindings of
        None \<Rightarrow> []
      | Some (NamedImports elements) \<Rightarrow> concat (map specifierNames elements)
      | Some (NamespaceImport n) \<Rightarrow> [n])"

fun visitImports :: "node \<Rightarrow> importInfo list \<Rightarrow> importInfo list" where
  "visitImports (ImportDeclaration importClause others pos e) imports =
     fold visitImports others
       (imports @
         [\<lparr>start = pos, endOffset = e,
           node = ImportDeclaration importClause others pos e,
           importedNames = clauseNames importClause\<rparr>])"
| "visitImports (Identifier t) imports = imports"
| "visitImports (JsxOpeningElement tagName others) imports =
     fold visitImports (tagName # others) imports"
| "visitImports (JsxSelfClosingElement tagName others) imports =
     fold visitImports (tagName # others) imports"
| "visitImports (OtherNode children) imports = fold visitImports children imports"

definition collectImports :: "node \<Rightarrow> importInfo list" where
  "collectImports sourceFile = visitImports sourceFile []"

section \<open>collectUsedIdentifiers\<close>

fun visitNode :: "node \<Rightarrow> string set \<Rightarrow> string set" where
  "visitNode (ImportDeclaration importClause others pos e) usedIdentifiers = usedIdentifiers"
| "visitNode (Identifier t) usedIdentifiers = insert t usedIdentifiers"
| "visitNode (JsxOpeningElement tagName others) usedIdentifiers =
     fold visitNode (tagName # others)
       (case tagName of Identifier t \<Rightarrow> insert t usedIdentifiers | _ \<Rightarrow> usedIdentifiers)"
| "visitNode (JsxSelfClosingElement tagName others) usedIdentifiers =
     fold visitNode (tagName # others)
       (case tagName of Identifier t \<Rightarrow> insert t usedIdentifiers | _ \<Rightarrow> usedIdentifiers)"
| "visitNode (OtherNode children) usedIdentifiers = fold visitNode children usedIdentifiers"

definition collectUsedIdentifiers :: "node \<Rightarrow> string set" where
  "collectUsedIdentifiers sourceFile = visitNode sourceFile {}"

section \<open>filterUnusedImports\<close>

fun joinNames :: "string list \<Rightarrow> string" where
  "joinNames [] = []"
| "joinNames [x] = x"
| "joinNames (x # y # ys) = x @ '', '' @ joinNames (y # ys)"

definition newlines :: "string \<Rightarrow> nat" where
  "newlines s = length (filter (\<lambda>c. c = CHR ''\<newline>'') s)"

definition findingOf :: "string \<Rightarrow> importInfo \<Rightarrow> UnusedImport" where
  "findingOf text importInfo =
     \<lparr>start = start importInfo, endOffset = endOffset importInfo,
      importName = joinNames (importedNames importInfo),
      line = Suc (newlines (take (start importInfo) text))\<rparr>"

fun filterUnusedImports :: "importInfo list \<Rightarrow> string set \<Rightarrow> string \<Rightarrow> UnusedImport list" where
  "filterUnusedImports [] usedIdentifiers text = []"
| "filterUnusedImports (importInfo # imports) usedIdentifiers text =
     (if importedNames importInfo = [] then filterUnusedImports imports usedIdentifiers text
      else if list_ex (\<lambda>name. name \<in> usedIdentifiers) (importedNames importInfo)
        then filterUnusedImports imports usedIdentifiers text
      else findingOf text importInfo # filterUnusedImports imports usedIdentifiers text)"

definition findUnusedImports :: "node \<Rightarrow> string \<Rightarrow> UnusedImport list" where
  "findUnusedImports sourceFile text =
     filterUnusedImports (collectImports sourceFile) (collectUsedIdentifiers sourceFile) text"

section \<open>The document and line deletions\<close>

text \<open>
  The editor's document is the text returned by \<open>getText()\<close>, a string whose lines end with
  the line feed (a carriage return before it belongs to the line, so the ranges below are the
  same for either end-of-line sequence). Offsets count characters from 0.

  \<open>positionAt\<close> turns an offset into a line and a character, clamping the offset to the
  length of the text. \<open>rangeIncludingLineBreak\<close> is the range of a whole line with its
  terminator, given here by its two offsets: from the first character of the line to the first
  character of the next line, or to the end of the text for the last line.
\<close>

datatype Position = Position nat nat

fun positionLine :: "Position \<Rightarrow> nat" where
  "positionLine (Position l c) = l"

definition positionAt :: "string \<Rightarrow> nat \<Rightarrow> Position" where
  "positionAt text offset =
     (let upTo = take offset text
      in Position (newlines upTo)
           (length (takeWhile (\<lambda>c. c \<noteq> CHR ''\<newline>'') (rev upTo))))"

fun offsetOfLine :: "string \<Rightarrow> nat \<Rightarrow> nat" where
  "offsetOfLine text 0 = 0"
| "offsetOfLine [] (Suc l) = 0"
| "offsetOfLine (c # cs) (Suc l) =
     Suc (offsetOfLine cs (if c = CHR ''\<newline>'' then l else Suc l))"

definition rangeIncludingLineBreak :: "string \<Rightarrow> nat \<Rightarrow> nat \<times> nat" where
  "rangeIncludingLineBreak text l = (offsetOfLine text l, offsetOfLine text (Suc l))"

text \<open>
  A deletion removes the characters of its range. The ranges of a batch are offsets of the
  original text, and the editor applies the batch as a whole. The model applies the deletions
  one after the other, in the order of the batch, each against the text the previous one
  left: for ranges in descending order that do not overlap this is the same text, since a
  deletion moves no character before its range. What the editor does with ranges that overlap
  (two findings on one line) is not part of the model.
\<close>

definition deleteRange :: "nat \<times> nat \<Rightarrow> string \<Rightarrow> string" where
  "deleteRange r text = take (fst r) text @ drop (snd r) text"

definition applyEdit :: "(nat \<times> nat) list \<Rightarrow> string \<Rightarrow> string" where
  "applyEdit edit text = fold deleteRange edit text"

text \<open>
  \<open>splitLines\<close> cuts a text into its lines, each with its terminator; the text after the
  last line feed is the last line. It is the reference the deletions are compared with.
\<close>

fun splitLines :: "string \<Rightarrow> string list" where
  "splitLines [] = [[]]"
| "splitLines (c # cs) =
     (if c = CHR ''\<newline>'' then [c] # splitLines cs
      else (case splitLines cs of l # ls \<Rightarrow> (c # l) # ls | [] \<Rightarrow> [[c]]))"

section \<open>applyRemovalEdits\<close>

text \<open>
  \<open>unusedImports.sort((a, b) => b.start - a.start)\<close>: a stable sort by descending start
  offset.
\<close>

fun insertDescending :: "UnusedImport \<Rightarrow> UnusedImport list \<Rightarrow> UnusedImport list" where
  "insertDescending a [] = [a]"
| "insertDescending a (b # bs) =
     (if start b \<le> start a then a # b # bs else b # insertDescending a bs)"

definition sortDescending :: "UnusedImport list \<Rightarrow> UnusedImport list" where
  "sortDescending unusedImports = foldr insertDescending unusedImports []"

definition removalRange :: "string \<Rightarrow> UnusedImport \<Rightarrow> nat \<times> nat" where
  "removalRange text unusedImport =
     (let startPos = positionAt text (start unusedImport)
      in rangeIncludingLineBreak text (positionLine startPos))"

definition removalEdit :: "string \<Rightarrow> UnusedImport list \<Rightarrow> (nat \<times> nat) list" where
  "removalEdit text unusedImports = map (removalRange text) (sortDescending unusedImports)"

definition applyRemovalEdits :: "string \<Rightarrow> UnusedImport list \<Rightarrow> string" where
  "applyRemovalEdits text unusedImports = applyEdit (removalEdit text unusedImports) text"

section \<open>The command\<close>

datatype ScriptKind = JS | JSX | TS | TSX

datatype message = ErrorMessage string | InformationMessage string

record TextDocument =
  languageId :: string
  getText :: string

definition isSupportedFile :: "string \<Rightarrow> bool" where
  "isSupportedFile langId \<longleftrightarrow>
     langId \<in> set [''javascript'', ''typescript'', ''javascriptreact'', ''typescriptreact'']"

fun includesStr :: "string \<Rightarrow> string \<Rightarrow> bool" where
  "includesStr [] sub = (sub = [])"
| "includesStr (c # cs) sub = (prefix sub (c # cs) \<or> includesStr cs sub)"

definition getScriptKind :: "string \<Rightarrow> ScriptKind" where
  "getScriptKind langId =
     (if includesStr langId ''jsx'' \<or> includesStr langId ''react''
      then (if includesStr langId ''typescript'' then TSX else JSX)
      else (if includesStr langId ''typescript'' then TS else JS))"

fun showNat :: "nat \<Rightarrow> string" where
  "showNat n =
     (if n < 10 then [char_of (48 + n)]
      else showNat (n div 10) @ [char_of (48 + n mod 10)])"

text \<open>
  The handler, with the active editor as an optional document and the parser as a parameter:
  \<open>createSourceFile kind text\<close> is \<open>Inr\<close> the tree, or \<open>Inl\<close> the message of the error it
  threw, which the handler catches. Nothing else in the \<open>try\<close> block throws: \<open>positionAt\<close>
  clamps the offset, so \<open>lineAt\<close> is asked for a line of the document. The result is the
  message shown and the document after the command.
\<close>

definition removeUnusedImportsHandler ::
  "(ScriptKind \<Rightarrow> string \<Rightarrow> string + node) \<Rightarrow> TextDocument option
     \<Rightarrow> message \<times> TextDocument option" where
  "removeUnusedImportsHandler createSourceFile editor =
     (case editor of
        None \<Rightarrow> (ErrorMessage ''No active editor found'', None)
      | Some document \<Rightarrow>
          if \<not> isSupportedFile (languageId document)
          then (ErrorMessage ''This command only works with JavaScript/TypeScript files'',
                Some document)
          else
            (case createSourceFile (getScriptKind (languageId document)) (getText document) of
               Inl msg \<Rightarrow> (ErrorMessage (''Error processing file: '' @ msg), Some document)
             | Inr sourceFile \<Rightarrow>
                 (let unusedImports = findUnusedImports sourceFile (getText document)
                  in if length unusedImports = 0
                     then (InformationMessage ''No unused imports found'', Some document)
                     else (InformationMessage
                             (''Removed '' @ showNat (length unusedImports) @
                              '' unused import(s)''),
                           Some (document\<lparr>getText :=
                                   applyRemovalEdits (getText document) unusedImports\<rparr>)))))"

section \<open>Identifiers outside import statements\<close>

text \<open>
  \<open>occursOutsideImports root n\<close>: the node \<open>n\<close> is \<open>root\<close> itself or lies below it on a path
  that enters no import declaration.
\<close>

inductive occursOutsideImports :: "node \<Rightarrow> node \<Rightarrow> bool" where
  here: "occursOutsideImports n n"
| openingTag: "occursOutsideImports tagName n
     \<Longrightarrow> occursOutsideImports (JsxOpeningElement tagName others) n"
| openingChild: "c \<in> set others \<Longrightarrow> occursOutsideImports c n
     \<Longrightarrow> occursOutsideImports (JsxOpeningElement tagName others) n"
| selfClosingTag: "occursOutsideImports tagName n
     \<Longrightarrow> occursOutsideImports (JsxSelfClosingElement tagName others) n"
| selfClosingChild: "c \<in> set others \<Longrightarrow> occursOutsideImports c n
     \<Longrightarrow> occursOutsideImports (JsxSelfClosingElement tagName others) n"
| otherChild: "c \<in> set children \<Longrightarrow> occursOutsideImports c n
     \<Longrightarrow> occursOutsideImports (OtherNode children) n"

section \<open>Records built by the extractor\<close>

text \<open>
  \<open>recordOfNode i\<close>: the record \<open>i\<close> is the one \<open>visitImports\<close> builds for its own
  \<open>node\<close>, an import declaration.
\<close>

definition recordOfNode :: "importInfo \<Rightarrow> bool" where
  "recordOfNode i \<longleftrightarrow>
     (case node i of
        ImportDeclaration importClause others pos e \<Rightarrow>
          importedNames i = clauseNames importClause \<and> start i = pos \<and> endOffset i = e
      | _ \<Rightarrow> False)"

section \<open>Unfolding rules for evaluation\<close>

lemmas pipeline_defs =
  findUnusedImports_def collectImports_def collectUsedIdentifiers_def findingOf_def newlines_def

lemmas edit_defs =
  applyRemovalEdits_def applyEdit_def removalEdit_def removalRange_def sortDescending_def
  positionAt_def rangeIncludingLineBreak_def deleteRange_def newlines_def

section \<open>Properties of the traversals\<close>

inductive_simps occurs_Identifier: "occursOutsideImports (Identifier t) n"
inductive_simps occurs_ImportDeclaration: "occursOutsideImports (ImportDeclaration c others pos e) n"
inductive_simps occurs_JsxOpeningElement: "occursOutsideImports (JsxOpeningElement tagName others) n"
inductive_simps occurs_JsxSelfClosingElement: "occursOutsideImports (JsxSelfClosingElement tagName others) n"
inductive_simps occurs_OtherNode: "occursOutsideImports (OtherNode children) n"

lemma occurs_children:
  "occursOutsideImports (OtherNode children) n \<longleftrightarrow>
     n = OtherNode children \<or> (\<exists>c\<in>set children. occursOutsideImports c n)"
  "occursOutsideImports (JsxOpeningElement tagName others) n \<longleftrightarrow>
     n = JsxOpeningElement tagName others \<or> occursOutsideImports tagName n \<or>
     (\<exists>c\<in>set others. occursOutsideImports c n)"
  "occursOutsideImports (JsxSelfClosingElement tagName others) n \<longleftrightarrow>
     n = JsxSelfClosingElement tagName others \<or> occursOutsideImports tagName n \<or>
     (\<exists>c\<in>set others. occursOutsideImports c n)"
  by (auto simp: occurs_OtherNode occurs_JsxOpeningElement occurs_JsxSelfClosingElement)

lemma fold_member_iff:
  assumes "\<And>c acc. c \<in> set cs \<Longrightarrow> (x \<in> f c acc \<longleftrightarrow> x \<in> acc \<or> P c)"
  shows "x \<in> fold f cs acc \<longleftrightarrow> x \<in> acc \<or> (\<exists>c\<in>set cs. P c)"
  using assms by (induction cs arbitrary: acc) auto

lemma visitNode_member_iff:
  "x \<in> visitNode n acc \<longleftrightarrow> x \<in> acc \<or> occursOutsideImports n (Identifier x)"
proof (induction n acc rule: visitNode.induct)
  case (1 importClause others pos e usedIdentifiers)
  show ?case by (simp add: occurs_ImportDeclaration)
next
  case (2 t usedIdentifiers)
  show ?case by (auto simp: occurs_Identifier)
next
  case (3 tagName others usedIdentifiers)
  have "x \<in> fold visitNode (tagName # others) acc' \<longleftrightarrow>
          x \<in> acc' \<or> (\<exists>c\<in>set (tagName # others). occursOutsideImports c (Identifier x))" for acc'
    by (rule fold_member_iff) (use 3 in blast)
  then show ?case
    by (cases tagName) (auto simp: occurs_JsxOpeningElement occurs_Identifier)
next
  case (4 tagName others usedIdentifiers)
  have "x \<in> fold visitNode (tagName # others) acc' \<longleftrightarrow>
          x \<in> acc' \<or> (\<exists>c\<in>set (tagName # others). occursOutsideImports c (Identifier x))" for acc'
    by (rule fold_member_iff) (use 4 in blast)
  then show ?case
    by (cases tagName) (auto simp: occurs_JsxSelfClosingElement occurs_Identifier)
next
  case (5 children usedIdentifiers)
  have "x \<in> fold visitNode children acc' \<longleftrightarrow>
          x \<in> acc' \<or> (\<exists>c\<in>set children. occursOutsideImports c (Identifier x))" for acc'
    by (rule fold_member_iff) (use 5 in blast)
  then show ?case
    by (auto simp: occurs_OtherNode)
qed

lemma collectUsedIdentifiers_iff:
  "x \<in> collectUsedIdentifiers sourceFile \<longleftrightarrow> occursOutsideImports sourceFile (Identifier x)"
  by (simp add: collectUsedIdentifiers_def visitNode_member_iff)

lemma occursOutsideImports_trans:
  "occursOutsideImports a b \<Longrightarrow> occursOutsideImports b c \<Longrightarrow> occursOutsideImports a c"
  by (induction rule: occursOutsideImports.induct) (auto intro: occursOutsideImports.intros)

lemma fold_preserves:
  assumes "\<And>c acc. c \<in> set cs \<Longrightarrow> Q acc \<Longrightarrow> Q (f c acc)" and "Q acc"
  shows "Q (fold f cs acc)"
  using assms
proof (induction cs arbitrary: acc)
  case Nil
  then show ?case by simp
next
  case (Cons c cs)
  have "Q (f c acc)" using Cons.prems by simp
  moreover have "\<And>d acc'. d \<in> set cs \<Longrightarrow> Q acc' \<Longrightarrow> Q (f d acc')"
    using Cons.prems(1) by simp
  ultimately have "Q (fold f cs (f c acc))" by (rule Cons.IH [rotated])
  then show ?case by simp
qed

lemma visitImports_recordOfNode:
  "\<forall>i\<in>set acc. recordOfNode i \<Longrightarrow> \<forall>i\<in>set (visitImports n acc). recordOfNode i"
proof (induction n acc rule: visitImports.induct)
  case (1 importClause others pos e infos)
  show ?case
    unfolding visitImports.simps
    by (rule fold_preserves) (use 1 in \<open>auto simp: recordOfNode_def\<close>)
next
  case (2 t infos)
  then show ?case by simp
next
  case (3 tagName others infos)
  show ?case
    unfolding visitImports.simps
    by (rule fold_preserves) (use 3 in auto)
next
  case (4 tagName others infos)
  show ?case
    unfolding visitImports.simps
    by (rule fold_preserves) (use 4 in auto)
next
  case (5 children infos)
  show ?case
    unfolding visitImports.simps
    by (rule fold_preserves) (use 5 in auto)
qed

lemma collectImports_recordOfNode:
  "i \<in> set (collectImports sourceFile) \<Longrightarrow> recordOfNode i"
  using visitImports_recordOfNode [of "[]" sourceFile] by (simp add: collectImports_def)

lemma collectImports_names:
  assumes "collectImports sourceFile = pre @ i # post"
    and "node i = ImportDeclaration importClause others pos e"
  shows "importedNames i = clauseNames importClause \<and> start i = pos \<and> endOffset i = e"
proof -
  have "i \<in> set (collectImports sourceFile)" using assms(1) by simp
  then have "recordOfNode i" by (rule collectImports_recordOfNode)
  then show ?thesis using assms(2) by (simp add: recordOfNode_def)
qed

section \<open>Properties of the resolver\<close>

lemma filterUnusedImports_append:
  "filterUnusedImports (xs @ ys) used text =
     filterUnusedImports xs used text @ filterUnusedImports ys used text"
  by (induction xs) simp_all

lemma list_ex_used_iff:
  "list_ex (\<lambda>name. name \<in> used) names \<longleftrightarrow> set names \<inter> used \<noteq> {}"
  by (auto simp: list_ex_iff)

text \<open>
  C1. An import statement with at least one binding name contributes a finding exactly when
  none of its names is in the usage set; the statements before and after it are resolved
  independently of it.
\<close>

theorem filterUnusedImports_flagged_iff_disjoint:
  assumes "importedNames i \<noteq> []"
  shows "filterUnusedImports (pre @ i # post) used text =
           filterUnusedImports pre used text @
           (if set (importedNames i) \<inter> used = {} then [findingOf text i] else []) @
           filterUnusedImports post used text"
  using assms by (simp add: filterUnusedImports_append list_ex_used_iff)

theorem filterUnusedImports_flagged_iff_disjoint_witness:
  \<open>importedNames
      \<lparr>start = 0, endOffset = 26,
       node = ImportDeclaration (Some (ImportClause (Some ''React'') None)) [OtherNode []] 0 26,
       importedNames = [''React'']\<rparr> \<noteq> [] \<and>
    filterUnusedImports
      ([] @
       \<lparr>start = 0, endOffset = 26,
        node = ImportDeclaration (Some (ImportClause (Some ''React'') None)) [OtherNode []] 0 26,
        importedNames = [''React'']\<rparr> # [])
      {''useState''} ''import React from "react";'' =
    [\<lparr>start = 0, endOffset = 26, importName = ''React'', line = 1\<rparr>]\<close>
  using filterUnusedImports_flagged_iff_disjoint
    [of "\<lparr>start = 0, endOffset = 26,
       node = ImportDeclaration (Some (ImportClause (Some ''React'') None)) [OtherNode []] 0 26,
       importedNames = [''React'']\<rparr>" "[]" "[]" "{''useState''}" \<open>''import React from "react";''\<close>]
  by (simp add: findingOf_def newlines_def)

text \<open>
  C3. An import record with no binding names (a side-effect import such as
  \<open>import "./styles.css"\<close>) contributes no finding, whatever the usage set and the text.
\<close>

theorem sideEffectImport_never_flagged:
  assumes "importedNames i = []"
  shows "filterUnusedImports (pre @ i # post) used text =
           filterUnusedImports pre used text @ filterUnusedImports post used text"
  using assms by (simp add: filterUnusedImports_append)

theorem sideEffectImport_never_flagged_witness:
  \<open>importedNames
      \<lparr>start = 0, endOffset = 22, node = ImportDeclaration None [OtherNode []] 0 22,
       importedNames = clauseNames None\<rparr> = [] \<and>
    filterUnusedImports
      ([] @
       \<lparr>start = 0, endOffset = 22, node = ImportDeclaration None [OtherNode []] 0 22,
        importedNames = clauseNames None\<rparr> # [])
      {} ''import "./styles.css";'' = []\<close>
  using sideEffectImport_never_flagged
    [of "\<lparr>start = 0, endOffset = 22, node = ImportDeclaration None [OtherNode []] 0 22,
        importedNames = clauseNames None\<rparr>" "[]" "[]" "{}" \<open>''import "./styles.css";''\<close>]
  by simp

text \<open>
  C10. The resolver is antitone in the usage set: with more used identifiers, the findings are
  a subsequence of the findings with fewer, so a larger usage set removes findings and adds
  none.
\<close>

theorem filterUnusedImports_antitone:
  assumes "U \<subseteq> U'"
  shows "subseq (filterUnusedImports infos U' text) (filterUnusedImports infos U text)"
  using assms by (induction infos) (auto simp: list_ex_iff)

theorem filterUnusedImports_antitone_witness:
  \<open>{''a''} \<subseteq> {''a'', ''b''} \<and>
   subseq
     (filterUnusedImports
        [\<lparr>start = 0, endOffset = 18, node = OtherNode [], importedNames = [''b'']\<rparr>,
         \<lparr>start = 18, endOffset = 37, node = OtherNode [], importedNames = [''c'']\<rparr>]
        {''a'', ''b''} '''')
     (filterUnusedImports
        [\<lparr>start = 0, endOffset = 18, node = OtherNode [], importedNames = [''b'']\<rparr>,
         \<lparr>start = 18, endOffset = 37, node = OtherNode [], importedNames = [''c'']\<rparr>]
        {''a''} '''')\<close>
  using filterUnusedImports_antitone
    [of "{''a''}" "{''a'', ''b''}"
      "[\<lparr>start = 0, endOffset = 18, node = OtherNode [], importedNames = [''b'']\<rparr>,
        \<lparr>start = 18, endOffset = 37, node = OtherNode [], importedNames = [''c'']\<rparr>]" "''''"]
  by simp

section \<open>Properties of extraction and usage\<close>

text \<open>
  In the theorems below an import statement is a record \<open>i\<close> of \<open>collectImports\<close>, at any
  place of its result (\<open>pre @ i # post\<close>) and with the declaration as its \<open>node\<close>. The
  statement is retained when the findings of the file are those of the records before it
  followed by those of the records after it.
\<close>

text \<open>
  C4. An aliased specifier \<open>original as local\<close> of a named import puts both the original and
  the local name among the binding names of the statement, and the statement is retained
  whenever either of the two names is a used identifier of the file.
\<close>

theorem aliased_specifier_binds_both_names:
  assumes "collectImports sourceFile = pre @ i # post"
    and "node i = ImportDeclaration (Some (ImportClause name (Some (NamedImports elements))))
                    others pos e"
    and "ImportSpecifier (Some original) local \<in> set elements"
  shows "original \<in> set (importedNames i) \<and> local \<in> set (importedNames i) \<and>
         (original \<in> collectUsedIdentifiers sourceFile \<or>
          local \<in> collectUsedIdentifiers sourceFile \<longrightarrow>
            findUnusedImports sourceFile text =
              filterUnusedImports pre (collectUsedIdentifiers sourceFile) text @
              filterUnusedImports post (collectUsedIdentifiers sourceFile) text)"
proof -
  have names: "importedNames i =
      clauseNames (Some (ImportClause name (Some (NamedImports elements))))"
    using collectImports_names [OF assms(1,2)] by simp
  have "set (specifierNames (ImportSpecifier (Some original) local)) \<subseteq> set (importedNames i)"
    using assms(3) unfolding names by (auto simp del: specifierNames.simps)
  then have both: "original \<in> set (importedNames i)" "local \<in> set (importedNames i)"
    by simp_all
  then have nonempty: "importedNames i \<noteq> []" by auto
  have "findUnusedImports sourceFile text =
          filterUnusedImports pre (collectUsedIdentifiers sourceFile) text @
          filterUnusedImports post (collectUsedIdentifiers sourceFile) text"
    if "original \<in> collectUsedIdentifiers sourceFile \<or> local \<in> collectUsedIdentifiers sourceFile"
  proof -
    from that both have "list_ex (\<lambda>name. name \<in> collectUsedIdentifiers sourceFile) (importedNames i)"
      by (auto simp: list_ex_iff)
    then show ?thesis
      using nonempty by (simp add: findUnusedImports_def assms(1) filterUnusedImports_append)
  qed
  with both show ?thesis by blast
qed

theorem aliased_specifier_binds_both_names_witness:
  \<open>collectImports
      (OtherNode
        [ImportDeclaration
           (Some (ImportClause None (Some (NamedImports [ImportSpecifier (Some ''useState'') ''st'']))))
           [OtherNode []] 0 35,
         OtherNode [Identifier ''useState''], OtherNode []]) =
      [] @
      \<lparr>start = 0, endOffset = 35,
       node = ImportDeclaration
           (Some (ImportClause None (Some (NamedImports [ImportSpecifier (Some ''useState'') ''st'']))))
           [OtherNode []] 0 35,
       importedNames = [''st'', ''useState'']\<rparr> # [] \<and>
    ImportSpecifier (Some ''useState'') ''st'' \<in> set [ImportSpecifier (Some ''useState'') ''st''] \<and>
    ''useState'' \<in> collectUsedIdentifiers
      (OtherNode
        [ImportDeclaration
           (Some (ImportClause None (Some (NamedImports [ImportSpecifier (Some ''useState'') ''st'']))))
           [OtherNode []] 0 35,
         OtherNode [Identifier ''useState''], OtherNode []]) \<and>
    findUnusedImports
      (OtherNode
        [ImportDeclaration
           (Some (ImportClause None (Some (NamedImports [ImportSpecifier (Some ''useState'') ''st'']))))
           [OtherNode []] 0 35,
         OtherNode [Identifier ''useState''], OtherNode []])
      ''import { useState as st } from "m";\<newline>useState;\<newline>'' = []\<close>
proof -
  let ?d = "ImportDeclaration
           (Some (ImportClause None (Some (NamedImports [ImportSpecifier (Some ''useState'') ''st'']))))
           [OtherNode []] 0 35"
  let ?sf = "OtherNode [?d, OtherNode [Identifier ''useState''], OtherNode []]"
  let ?i = "\<lparr>start = 0, endOffset = 35, node = ?d, importedNames = [''st'', ''useState'']\<rparr>"
  have h1: "collectImports ?sf = [] @ ?i # []"
    by (simp add: collectImports_def)
  have h2: "node ?i = ?d" by simp
  have h3: "ImportSpecifier (Some ''useState'') ''st'' \<in> set [ImportSpecifier (Some ''useState'') ''st'']"
    by simp
  have h4: "''useState'' \<in> collectUsedIdentifiers ?sf"
    by (simp add: collectUsedIdentifiers_def)
  show ?thesis
    using aliased_specifier_binds_both_names [OF h1 h2 h3,
        of \<open>''import { useState as st } from "m";\<newline>useState;\<newline>''\<close>] h1 h3 h4
    by simp
qed

text \<open>
  C5. A namespace import \<open>import * as x\<close> is retained if and only if an identifier \<open>x\<close>
  occurs in the file outside the import declarations (as the object of \<open>x.readFile\<close>, for
  instance); the traversal that collects the used identifiers returns at an import
  declaration, so nothing inside one counts as usage.
\<close>

theorem namespaceImport_retained_iff_used:
  assumes "collectImports sourceFile = pre @ i # post"
    and "node i = ImportDeclaration (Some (ImportClause None (Some (NamespaceImport x))))
                    others pos e"
  shows "findUnusedImports sourceFile text =
           filterUnusedImports pre (collectUsedIdentifiers sourceFile) text @
           (if occursOutsideImports sourceFile (Identifier x) then [] else [findingOf text i]) @
           filterUnusedImports post (collectUsedIdentifiers sourceFile) text \<and>
         visitNode (ImportDeclaration importClause' others' pos' e') usedIdentifiers =
           usedIdentifiers"
proof -
  have "importedNames i = [x]"
    using collectImports_names [OF assms] by simp
  then show ?thesis
    by (simp add: findUnusedImports_def assms(1) filterUnusedImports_append
        collectUsedIdentifiers_iff)
qed

theorem namespaceImport_retained_iff_used_witness:
  \<open>collectImports
      (OtherNode
        [ImportDeclaration (Some (ImportClause None (Some (NamespaceImport ''fs''))))
           [OtherNode []] 0 24,
         OtherNode [OtherNode [Identifier ''fs'', Identifier ''readFile'']], OtherNode []]) =
      [] @
      \<lparr>start = 0, endOffset = 24,
       node = ImportDeclaration (Some (ImportClause None (Some (NamespaceImport ''fs''))))
           [OtherNode []] 0 24,
       importedNames = [''fs'']\<rparr> # [] \<and>
    occursOutsideImports
      (OtherNode
        [ImportDeclaration (Some (ImportClause None (Some (NamespaceImport ''fs''))))
           [OtherNode []] 0 24,
         OtherNode [OtherNode [Identifier ''fs'', Identifier ''readFile'']], OtherNode []])
      (Identifier ''fs'') \<and>
    findUnusedImports
      (OtherNode
        [ImportDeclaration (Some (ImportClause None (Some (NamespaceImport ''fs''))))
           [OtherNode []] 0 24,
         OtherNode [OtherNode [Identifier ''fs'', Identifier ''readFile'']], OtherNode []])
      ''import * as fs from "m";\<newline>fs.readFile;\<newline>'' = []\<close>
proof -
  let ?d = "ImportDeclaration (Some (ImportClause None (Some (NamespaceImport ''fs''))))
           [OtherNode []] 0 24"
  let ?sf = "OtherNode [?d, OtherNode [OtherNode [Identifier ''fs'', Identifier ''readFile'']],
               OtherNode []]"
  let ?i = "\<lparr>start = 0, endOffset = 24, node = ?d, importedNames = [''fs'']\<rparr>"
  have h1: "collectImports ?sf = [] @ ?i # []"
    by (simp add: collectImports_def)
  have h2: "node ?i = ?d" by simp
  have h3: "occursOutsideImports ?sf (Identifier ''fs'')"
    by (simp add: occurs_children occurs_Identifier occurs_ImportDeclaration)
  show ?thesis
    using namespaceImport_retained_iff_used [OF h1 h2,
        of \<open>''import * as fs from "m";\<newline>fs.readFile;\<newline>''\<close>] h1 h3
    by simp
qed

text \<open>
  C6. The tag name of an opening or self-closing markup element, when it is a plain
  identifier, is in the usage set, so a default import of that name is retained.
\<close>

theorem markup_tag_counts_as_usage:
  assumes "occursOutsideImports sourceFile (JsxSelfClosingElement (Identifier w) attrs) \<or>
           occursOutsideImports sourceFile (JsxOpeningElement (Identifier w) attrs)"
  shows "w \<in> collectUsedIdentifiers sourceFile \<and>
         (collectImports sourceFile = pre @ i # post \<and>
          node i = ImportDeclaration (Some (ImportClause (Some w) namedBindings)) others pos e \<longrightarrow>
            findUnusedImports sourceFile text =
              filterUnusedImports pre (collectUsedIdentifiers sourceFile) text @
              filterUnusedImports post (collectUsedIdentifiers sourceFile) text)"
proof -
  have "occursOutsideImports (JsxSelfClosingElement (Identifier w) attrs) (Identifier w)"
    and "occursOutsideImports (JsxOpeningElement (Identifier w) attrs) (Identifier w)"
    by (simp_all add: occurs_JsxSelfClosingElement occurs_JsxOpeningElement occurs_Identifier)
  with assms have "occursOutsideImports sourceFile (Identifier w)"
    by (blast intro: occursOutsideImports_trans)
  then have used: "w \<in> collectUsedIdentifiers sourceFile"
    by (simp add: collectUsedIdentifiers_iff)
  have "findUnusedImports sourceFile text =
          filterUnusedImports pre (collectUsedIdentifiers sourceFile) text @
          filterUnusedImports post (collectUsedIdentifiers sourceFile) text"
    if c: "collectImports sourceFile = pre @ i # post"
      and n: "node i = ImportDeclaration (Some (ImportClause (Some w) namedBindings)) others pos e"
  proof -
    have "importedNames i = clauseNames (Some (ImportClause (Some w) namedBindings))"
      using collectImports_names [OF c n] by simp
    then have "w \<in> set (importedNames i)" by simp
    with used have "list_ex (\<lambda>name. name \<in> collectUsedIdentifiers sourceFile) (importedNames i)"
      by (auto simp: list_ex_iff)
    then show ?thesis
      by (simp add: findUnusedImports_def c filterUnusedImports_append)
  qed
  with used show ?thesis by blast
qed

theorem markup_tag_counts_as_usage_witness:
  \<open>occursOutsideImports
      (OtherNode
        [ImportDeclaration (Some (ImportClause (Some ''Widget'') None)) [OtherNode []] 0 23,
         OtherNode [JsxSelfClosingElement (Identifier ''Widget'') [OtherNode []]], OtherNode []])
      (JsxSelfClosingElement (Identifier ''Widget'') [OtherNode []]) \<and>
    collectImports
      (OtherNode
        [ImportDeclaration (Some (ImportClause (Some ''Widget'') None)) [OtherNode []] 0 23,
         OtherNode [JsxSelfClosingElement (Identifier ''Widget'') [OtherNode []]], OtherNode []]) =
      [] @
      \<lparr>start = 0, endOffset = 23,
       node = ImportDeclaration (Some (ImportClause (Some ''Widget'') None)) [OtherNode []] 0 23,
       importedNames = [''Widget'']\<rparr> # [] \<and>
    ''Widget'' \<in> collectUsedIdentifiers
      (OtherNode
        [ImportDeclaration (Some (ImportClause (Some ''Widget'') None)) [OtherNode []] 0 23,
         OtherNode [JsxSelfClosingElement (Identifier ''Widget'') [OtherNode []]], OtherNode []]) \<and>
    findUnusedImports
      (OtherNode
        [ImportDeclaration (Some (ImportClause (Some ''Widget'') None)) [OtherNode []] 0 23,
         OtherNode [JsxSelfClosingElement (Identifier ''Widget'') [OtherNode []]], OtherNode []])
      ''import Widget from "m";\<newline><Widget />;\<newline>'' = []\<close>
proof -
  let ?d = "ImportDeclaration (Some (ImportClause (Some ''Widget'') None)) [OtherNode []] 0 23"
  let ?tag = "JsxSelfClosingElement (Identifier ''Widget'') [OtherNode []]"
  let ?sf = "OtherNode [?d, OtherNode [?tag], OtherNode []]"
  let ?i = "\<lparr>start = 0, endOffset = 23, node = ?d, importedNames = [''Widget'']\<rparr>"
  have h0: "occursOutsideImports ?sf ?tag \<or>
            occursOutsideImports ?sf (JsxOpeningElement (Identifier ''Widget'') [OtherNode []])"
    by (simp add: occurs_children occurs_ImportDeclaration)
  have h0': "occursOutsideImports ?sf ?tag"
    by (simp add: occurs_children occurs_ImportDeclaration)
  have h1: "collectImports ?sf = [] @ ?i # []"
    by (simp add: collectImports_def)
  have h2: "node ?i = ?d" by simp
  show ?thesis
    using markup_tag_counts_as_usage [OF h0,
        of "[]" ?i "[]" None "[OtherNode []]" 0 23
           \<open>''import Widget from "m";\<newline><Widget />;\<newline>''\<close>] h0' h1 h2
    by simp
qed

text \<open>
  C8, as stated, fails: for an aliased specifier the display name of the finding holds the
  local and the original name, not a single name.
\<close>

theorem aliased_display_name_counterexample:
  \<open>findUnusedImports
      (OtherNode
        [ImportDeclaration
           (Some (ImportClause None (Some (NamedImports [ImportSpecifier (Some ''useState'') ''st'']))))
           [OtherNode []] 0 35,
         OtherNode []])
      ''import { useState as st } from "m";\<newline>'' =
    [\<lparr>start = 0, endOffset = 35, importName = ''st, useState'', line = 1\<rparr>]\<close>
  by (simp add: pipeline_defs)

text \<open>
  C8, amended. The display name of a finding is the list of the binding names the extractor
  collected for the statement, joined by a comma and a space, in the order of collection:
  the default name, then for each named specifier its local name followed by its original
  name when it is aliased, or the namespace name. An aliased specifier contributes both of
  its names, the local one first.
\<close>

theorem finding_displays_all_binding_names:
  assumes "collectImports sourceFile = pre @ i # post"
    and "node i = ImportDeclaration importClause others pos e"
    and "clauseNames importClause \<noteq> []"
    and "set (clauseNames importClause) \<inter> collectUsedIdentifiers sourceFile = {}"
  shows "findUnusedImports sourceFile text =
           filterUnusedImports pre (collectUsedIdentifiers sourceFile) text @
           [\<lparr>start = pos, endOffset = e, importName = joinNames (clauseNames importClause),
             line = Suc (newlines (take pos text))\<rparr>] @
           filterUnusedImports post (collectUsedIdentifiers sourceFile) text \<and>
         clauseNames (Some (ImportClause None
             (Some (NamedImports [ImportSpecifier (Some original) local])))) = [local, original]"
proof -
  have "importedNames i = clauseNames importClause \<and> start i = pos \<and> endOffset i = e"
    using collectImports_names [OF assms(1,2)] .
  then show ?thesis
    using assms(3,4)
    by (simp add: findUnusedImports_def assms(1) filterUnusedImports_append list_ex_used_iff
        findingOf_def)
qed

theorem finding_displays_all_binding_names_witness:
  \<open>collectImports
      (OtherNode
        [ImportDeclaration
           (Some (ImportClause (Some ''React'')
              (Some (NamedImports [ImportSpecifier (Some ''useState'') ''st'',
                                   ImportSpecifier None ''useEffect'']))))
           [OtherNode []] 0 53,
         OtherNode []]) =
      [] @
      \<lparr>start = 0, endOffset = 53,
       node = ImportDeclaration
           (Some (ImportClause (Some ''React'')
              (Some (NamedImports [ImportSpecifier (Some ''useState'') ''st'',
                                   ImportSpecifier None ''useEffect'']))))
           [OtherNode []] 0 53,
       importedNames = [''React'', ''st'', ''useState'', ''useEffect'']\<rparr> # [] \<and>
    findUnusedImports
      (OtherNode
        [ImportDeclaration
           (Some (ImportClause (Some ''React'')
              (Some (NamedImports [ImportSpecifier (Some ''useState'') ''st'',
                                   ImportSpecifier None ''useEffect'']))))
           [OtherNode []] 0 53,
         OtherNode []])
      ''import React, { useState as st, useEffect } from "m";\<newline>'' =
    [\<lparr>start = 0, endOffset = 53, importName = ''React, st, useState, useEffect'', line = 1\<rparr>]\<close>
proof -
  let ?c = "Some (ImportClause (Some ''React'')
              (Some (NamedImports [ImportSpecifier (Some ''useState'') ''st'',
                                   ImportSpecifier None ''useEffect''])))"
  let ?d = "ImportDeclaration ?c [OtherNode []] 0 53"
  let ?sf = "OtherNode [?d, OtherNode []]"
  let ?i = "\<lparr>start = 0, endOffset = 53, node = ?d,
             importedNames = [''React'', ''st'', ''useState'', ''useEffect'']\<rparr>"
  have h1: "collectImports ?sf = [] @ ?i # []"
    by (simp add: collectImports_def)
  have h2: "node ?i = ?d" by simp
  have h3: "clauseNames ?c \<noteq> []" by simp
  have h4: "set (clauseNames ?c) \<inter> collectUsedIdentifiers ?sf = {}"
    by (simp add: collectUsedIdentifiers_def)
  show ?thesis
    using finding_displays_all_binding_names [OF h1 h2 h3 h4,
        of \<open>''import React, { useState as st, useEffect } from "m";\<newline>''\<close>] h1
    by (simp add: newlines_def)
qed

section \<open>Properties of the command\<close>

text \<open>
  C9. For a document whose language identifier is not one of the four supported ones, the
  handler shows the unsupported-file error and leaves the document as it is.
\<close>

theorem unsupported_file_no_edits:
  assumes "\<not> isSupportedFile (languageId document)"
  shows "removeUnusedImportsHandler createSourceFile (Some document) =
           (ErrorMessage ''This command only works with JavaScript/TypeScript files'',
            Some document)"
  using assms by (simp add: removeUnusedImportsHandler_def)

theorem unsupported_file_no_edits_witness:
  \<open>\<not> isSupportedFile (languageId \<lparr>languageId = ''python'', getText = ''import os''\<rparr>) \<and>
   removeUnusedImportsHandler (\<lambda>kind text. Inr (OtherNode []))
     (Some \<lparr>languageId = ''python'', getText = ''import os''\<rparr>) =
     (ErrorMessage ''This command only works with JavaScript/TypeScript files'',
      Some \<lparr>languageId = ''python'', getText = ''import os''\<rparr>)\<close>
  using unsupported_file_no_edits
    [of "\<lparr>languageId = ''python'', getText = ''import os''\<rparr>" "\<lambda>kind text. Inr (OtherNode [])"]
  by (simp add: isSupportedFile_def)

section \<open>Properties of the removal\<close>

text \<open>The batch is in descending order of start offset and holds the same findings.\<close>

lemma insertDescending_set: "set (insertDescending a bs) = insert a (set bs)"
  by (induction bs) auto

lemma insertDescending_sorted:
  "sorted_wrt (\<lambda>a b. start b \<le> start a) bs
     \<Longrightarrow> sorted_wrt (\<lambda>a b. start b \<le> start a) (insertDescending a bs)"
  by (induction bs) (auto simp: insertDescending_set)

lemma sortDescending_set: "set (sortDescending xs) = set xs"
  by (induction xs) (simp_all add: sortDescending_def insertDescending_set)

lemma sortDescending_sorted: "sorted_wrt (\<lambda>a b. start b \<le> start a) (sortDescending xs)"
  by (induction xs) (simp_all add: sortDescending_def insertDescending_sorted)

text \<open>Lines of a text and the offsets of their first characters.\<close>

lemma splitLines_nonempty: "splitLines doc \<noteq> []"
  by (induction doc) (auto split: list.splits)

lemma concat_splitLines: "concat (splitLines doc) = doc"
  by (induction doc) (auto split: list.splits)

lemma length_splitLines: "length (splitLines doc) = Suc (newlines doc)"
  by (induction doc) (auto simp: newlines_def split: list.splits)

lemma offsetOfLine_splitLines:
  "offsetOfLine doc l = length (concat (take l (splitLines doc)))"
proof (induction doc l rule: offsetOfLine.induct)
  case (1 doc)
  show ?case by simp
next
  case (2 l)
  show ?case by simp
next
  case (3 c cs l)
  show ?case
  proof (cases "c = CHR ''\<newline>''")
    case True
    with 3 show ?thesis by simp
  next
    case False
    obtain h t where ht: "splitLines cs = h # t"
      using splitLines_nonempty [of cs] by (cases "splitLines cs") auto
    with 3 False show ?thesis by simp
  qed
qed

lemma take_length_concat_take:
  "take (length (concat (take l ls))) (concat ls) = concat (take l ls)"
proof -
  have "concat ls = concat (take l ls) @ concat (drop l ls)"
    by (metis append_take_drop_id concat_append)
  then show ?thesis by (metis append_eq_conv_conj)
qed

lemma drop_length_concat_take:
  "drop (length (concat (take l ls))) (concat ls) = concat (drop l ls)"
proof -
  have "concat ls = concat (take l ls) @ concat (drop l ls)"
    by (metis append_take_drop_id concat_append)
  then show ?thesis by (metis append_eq_conv_conj)
qed

lemma deleteRange_line:
  "deleteRange (rangeIncludingLineBreak text l) text =
     concat (take l (splitLines text) @ drop (Suc l) (splitLines text))"
proof -
  have "take (offsetOfLine text l) text = concat (take l (splitLines text))"
    using take_length_concat_take [of l "splitLines text"]
    by (simp add: offsetOfLine_splitLines concat_splitLines)
  moreover have "drop (offsetOfLine text (Suc l)) text = concat (drop (Suc l) (splitLines text))"
    using drop_length_concat_take [of "Suc l" "splitLines text"]
    by (simp add: offsetOfLine_splitLines concat_splitLines)
  ultimately show ?thesis
    by (simp add: deleteRange_def rangeIncludingLineBreak_def)
qed

lemma newlines_Cons:
  "newlines (c # cs) = (if c = CHR ''\<newline>'' then Suc (newlines cs) else newlines cs)"
  by (simp add: newlines_def)

lemma newlines_Nil: "newlines [] = 0"
  by (simp add: newlines_def)

lemma newlines_take_le: "newlines (take off doc) \<le> newlines doc"
  unfolding newlines_def
  by (metis append_take_drop_id filter_append length_append le_add1)

lemma newlines_take_mono: "a \<le> b \<Longrightarrow> newlines (take a doc) \<le> newlines (take b doc)"
  using newlines_take_le [of a "take b doc"] by (simp add: min_absorb1)

lemma offsetOfLine_le_offset:
  "offsetOfLine doc (newlines (take off doc)) \<le> min off (length doc)"
proof (induction doc arbitrary: off)
  case Nil
  show ?case by (cases "newlines (take off [])") (simp_all add: newlines_Nil)
next
  case (Cons c cs)
  show ?case
  proof (cases off)
    case 0
    then show ?thesis by (simp add: newlines_Nil)
  next
    case (Suc k)
    show ?thesis
    proof (cases "c = CHR ''\<newline>''")
      case True
      with Suc Cons [of k] show ?thesis by (simp add: newlines_Cons)
    next
      case False
      with Suc Cons [of k] show ?thesis
        by (cases "newlines (take k cs)") (simp_all add: newlines_Cons)
    qed
  qed
qed

lemma offset_less_offsetOfLine_Suc:
  "off < length doc \<Longrightarrow> off < offsetOfLine doc (Suc (newlines (take off doc)))"
proof (induction doc arbitrary: off)
  case Nil
  then show ?case by simp
next
  case (Cons c cs)
  show ?case
  proof (cases off)
    case 0
    then show ?thesis by (simp add: newlines_Nil)
  next
    case (Suc k)
    with Cons.prems have "k < length cs" by simp
    from Cons.IH [OF this] Suc show ?thesis
      by (simp add: newlines_Cons)
  qed
qed

lemma offsetOfLine_le_length: "offsetOfLine doc l \<le> length doc"
  by (induction doc l rule: offsetOfLine.induct) simp_all

text \<open>
  Deleting, one after the other and in descending order, the ranges of distinct lines leaves
  the other lines as they were.
\<close>

lemma nths_eq_on_indices:
  assumes "\<And>i. i < length xs \<Longrightarrow> (i \<in> I \<longleftrightarrow> i \<in> J)"
  shows "nths xs I = nths xs J"
proof -
  have "filter (\<lambda>p. snd p \<in> I) (zip xs [0..<length xs]) =
        filter (\<lambda>p. snd p \<in> J) (zip xs [0..<length xs])"
  proof (rule filter_cong [OF refl])
    fix p assume "p \<in> set (zip xs [0..<length xs])"
    then have "snd p \<in> set [0..<length xs]" by (metis in_set_zipE prod.collapse)
    then show "(snd p \<in> I) = (snd p \<in> J)" using assms by simp
  qed
  then show ?thesis by (simp add: nths_def)
qed

lemma nths_append_Cons:
  "nths (as @ x # ds) I =
     nths as I @ (if length as \<in> I then [x] else []) @ nths ds {j. j + Suc (length as) \<in> I}"
  by (simp add: nths_append nths_Cons)

lemma fold_deleteRange_lines:
  assumes "sorted_wrt (\<lambda>a b. b < a) ks" and "\<forall>k\<in>set ks. k < m" and "m \<le> length ls"
  shows "fold deleteRange
           (map (\<lambda>k. (length (concat (take k ls)), length (concat (take (Suc k) ls)))) ks)
           (concat (take m ls) @ rest) =
         concat (nths (take m ls) (- set ks)) @ rest"
  using assms
proof (induction ks arbitrary: m rest)
  case Nil
  then show ?case by (simp add: nths_all)
next
  case (Cons k ks)
  let ?A = "take k ls"
  let ?D = "drop (Suc k) (take m ls)"
  from Cons.prems have km: "k < m" and mk: "m \<le> length ls" by simp_all
  then have klen: "k < length ls" by simp
  have split: "take m ls = ?A @ (ls ! k) # ?D"
    using id_take_nth_drop [of k "take m ls"] km mk by (simp add: min_absorb1)
  have takeSuc: "take (Suc k) ls = ?A @ [ls ! k]"
    using klen by (simp add: take_Suc_conv_app_nth)
  have step: "deleteRange (length (concat ?A), length (concat (take (Suc k) ls)))
                (concat (take m ls) @ rest) = concat ?A @ (concat ?D @ rest)"
    unfolding takeSuc by (subst split) (simp add: deleteRange_def)
  have IH: "fold deleteRange
              (map (\<lambda>k. (length (concat (take k ls)), length (concat (take (Suc k) ls)))) ks)
              (concat ?A @ (concat ?D @ rest)) =
            concat (nths ?A (- set ks)) @ (concat ?D @ rest)"
    using Cons.prems klen by (intro Cons.IH) auto
  have lenA: "length ?A = k" using klen by simp
  have n1: "nths ?A (- set (k # ks)) = nths ?A (- set ks)"
    by (rule nths_eq_on_indices) (simp add: lenA)
  have n2: "nths ?D {j. j + Suc k \<in> - set (k # ks)} = ?D"
    using Cons.prems(1) by (intro nths_all) auto
  have "nths (take m ls) (- set (k # ks)) = nths ?A (- set ks) @ ?D"
    by (subst split) (simp only: nths_append_Cons lenA n1 n2, simp)
  then show ?case using step IH by simp
qed

text \<open>
  What the removal does: the range of a finding holds its (clamped) start offset, and when the
  start offsets of the findings lie on distinct lines, the text left is the original one
  without those lines. With distinct start offsets the batch is strictly descending.
\<close>

lemma positionLine_positionAt: "positionLine (positionAt doc off) = newlines (take off doc)"
  by (simp add: positionAt_def Let_def)

lemma removalRange_splitLines:
  "removalRange doc u =
     (length (concat (take (newlines (take (start u) doc)) (splitLines doc))),
      length (concat (take (Suc (newlines (take (start u) doc))) (splitLines doc))))"
  by (simp add: removalRange_def positionLine_positionAt rangeIncludingLineBreak_def
      offsetOfLine_splitLines)

lemma distinct_map_insertDescending:
  "distinct (map f (insertDescending a bs)) \<longleftrightarrow> f a \<notin> f ` set bs \<and> distinct (map f bs)"
  by (induction bs) (auto simp: insertDescending_set)

lemma distinct_map_sortDescending:
  "distinct (map f (sortDescending xs)) \<longleftrightarrow> distinct (map f xs)"
  by (induction xs)
    (simp_all add: sortDescending_def distinct_map_insertDescending
      sortDescending_set [unfolded sortDescending_def])

lemma sorted_wrt_strict:
  fixes f :: "'a \<Rightarrow> nat"
  assumes "sorted_wrt (\<lambda>a b. f b \<le> f a) xs" and "distinct (map f xs)"
  shows "sorted_wrt (\<lambda>a b. f b < f a) xs"
  using assms
proof (induction xs)
  case Nil
  show ?case by simp
next
  case (Cons a xs)
  have "f x < f a" if "x \<in> set xs" for x
  proof -
    from that Cons.prems have "f x \<le> f a" by simp
    moreover have "f x \<in> set (map f xs)" using that by simp
    moreover have "f a \<notin> set (map f xs)" using Cons.prems(2) by simp
    ultimately show ?thesis by (metis le_neq_implies_less)
  qed
  with Cons show ?case by simp
qed

lemma sortDescending_strict:
  assumes "distinct (map start unusedImports)"
  shows "sorted_wrt (\<lambda>a b. start b < start a) (sortDescending unusedImports)"
  using sortDescending_sorted [of unusedImports] assms
  by (intro sorted_wrt_strict) (simp_all add: distinct_map_sortDescending)

lemma sortDescending_lines:
  "sorted_wrt (\<lambda>a b. newlines (take (start b) doc) \<le> newlines (take (start a) doc))
     (sortDescending unusedImports)"
  by (rule sorted_wrt_mono_rel [OF _ sortDescending_sorted]) (simp add: newlines_take_mono)

lemma applyRemovalEdits_distinct_lines:
  assumes "distinct (map (\<lambda>u. positionLine (positionAt doc (start u))) unusedImports)"
  shows "applyRemovalEdits doc unusedImports =
           concat (nths (splitLines doc)
             (- (\<lambda>u. positionLine (positionAt doc (start u))) ` set unusedImports))"
proof -
  let ?f = "\<lambda>u. newlines (take (start u) doc)"
  let ?ls = "splitLines doc"
  let ?ks = "map ?f (sortDescending unusedImports)"
  have d: "distinct (map ?f (sortDescending unusedImports))"
    using assms by (simp add: positionLine_positionAt distinct_map_sortDescending)
  have "sorted_wrt (\<lambda>a b. ?f b < ?f a) (sortDescending unusedImports)"
    using sortDescending_lines d by (rule sorted_wrt_strict)
  then have s: "sorted_wrt (\<lambda>a b. b < a) ?ks"
    by (simp add: sorted_wrt_map)
  have b: "\<forall>k\<in>set ?ks. k < length ?ls"
    using newlines_take_le by (auto simp: length_splitLines less_Suc_eq_le)
  have "removalEdit doc unusedImports =
          map (\<lambda>k. (length (concat (take k ?ls)), length (concat (take (Suc k) ?ls)))) ?ks"
    by (simp add: removalEdit_def removalRange_splitLines comp_def)
  then have "applyRemovalEdits doc unusedImports =
      fold deleteRange
        (map (\<lambda>k. (length (concat (take k ?ls)), length (concat (take (Suc k) ?ls)))) ?ks)
        (concat (take (length ?ls) ?ls) @ [])"
    by (simp add: applyRemovalEdits_def applyEdit_def concat_splitLines)
  also have "\<dots> = concat (nths (take (length ?ls) ?ls) (- set ?ks)) @ []"
    using s b by (intro fold_deleteRange_lines) simp_all
  finally show ?thesis
    by (simp add: sortDescending_set positionLine_positionAt image_image)
qed

lemma offsetOfLine_last: "offsetOfLine doc (Suc (newlines doc)) = length doc"
  by (induction doc) (simp_all add: newlines_Cons newlines_Nil)

lemma removalRange_covers_start:
  "fst (removalRange doc u) \<le> min (start u) (length doc) \<and>
   min (start u) (length doc) \<le> snd (removalRange doc u) \<and>
   snd (removalRange doc u) \<le> length doc"
proof -
  let ?l = "newlines (take (start u) doc)"
  have "min (start u) (length doc) \<le> offsetOfLine doc (Suc ?l)"
  proof (cases "start u < length doc")
    case True
    then show ?thesis using offset_less_offsetOfLine_Suc [of "start u" doc] by simp
  next
    case False
    then show ?thesis by (simp add: offsetOfLine_last)
  qed
  then show ?thesis
    using offsetOfLine_le_offset [of doc "start u"] offsetOfLine_le_length [of doc "Suc ?l"]
    by (simp add: removalRange_def positionLine_positionAt rangeIncludingLineBreak_def)
qed

text \<open>
  C2. The claim: the batch is in strictly descending order of start offset, each deletion is
  the whole line, with its terminator, that holds the start offset of its finding, and applying
  the deletions one after the other deletes exactly the lines of the flagged import statements,
  never a wrong line. The order and the ranges are as claimed (\<open>sortDescending_strict\<close>,
  \<open>removalRange_covers_start\<close>, \<open>applyRemovalEdits_distinct_lines\<close>), but the line of the
  start offset is not always a line of the flagged statement, and not all of them. The start
  offset is the full start of the declaration, the end of the token before it: for
  \<open>import B\<close> on the second line it is offset 18, the line feed that ends the first line, so
  the first line is deleted and the flagged statement stays. For a statement over several
  lines, only the first of its lines is deleted.
\<close>

theorem applyRemovalEdits_deletes_line_of_full_start:
  \<open>applyRemovalEdits ''import A from "a";\<newline>import B from "b";\<newline>A;\<newline>''
      [\<lparr>start = 18, endOffset = 37, importName = ''B'', line = 1\<rparr>] =
      ''import B from "b";\<newline>A;\<newline>'' \<and>
    applyRemovalEdits ''import {\<newline>  a\<newline>} from "m";\<newline>foo();\<newline>''
      [\<lparr>start = 0, endOffset = 24, importName = ''a'', line = 1\<rparr>] =
      ''  a\<newline>} from "m";\<newline>foo();\<newline>''\<close>
  by (simp add: edit_defs)

text \<open>
  C7. The claim: a second run of the pipeline on the text left by a removal yields no finding.
  In the file below \<open>A\<close> is used and \<open>B\<close> is not. The first pass flags \<open>import B\<close>, whose
  start offset 18 lies on the first line, and deletes the line of \<open>import A\<close>; the second
  pass, on the tree of the text that is left, flags \<open>import B\<close> again. The two trees are
  those of the parser for the two texts, with each declaration's full start and end.
\<close>

theorem second_pass_still_finds_import:
  \<open>findUnusedImports
      (OtherNode
        [ImportDeclaration (Some (ImportClause (Some ''A'') None)) [OtherNode []] 0 18,
         ImportDeclaration (Some (ImportClause (Some ''B'') None)) [OtherNode []] 18 37,
         OtherNode [Identifier ''A''], OtherNode []])
      ''import A from "a";\<newline>import B from "b";\<newline>A;\<newline>'' =
      [\<lparr>start = 18, endOffset = 37, importName = ''B'', line = 1\<rparr>] \<and>
    applyRemovalEdits ''import A from "a";\<newline>import B from "b";\<newline>A;\<newline>''
      (findUnusedImports
        (OtherNode
          [ImportDeclaration (Some (ImportClause (Some ''A'') None)) [OtherNode []] 0 18,
           ImportDeclaration (Some (ImportClause (Some ''B'') None)) [OtherNode []] 18 37,
           OtherNode [Identifier ''A''], OtherNode []])
        ''import A from "a";\<newline>import B from "b";\<newline>A;\<newline>'') =
      ''import B from "b";\<newline>A;\<newline>'' \<and>
    findUnusedImports
      (OtherNode
        [ImportDeclaration (Some (ImportClause (Some ''B'') None)) [OtherNode []] 0 18,
         OtherNode [Identifier ''A''], OtherNode []])
      ''import B from "b";\<newline>A;\<newline>'' =
      [\<lparr>start = 0, endOffset = 18, importName = ''B'', line = 1\<rparr>]\<close>
  by (simp add: pipeline_defs edit_defs)

end
